theory Spec2Isabelle
  imports Complex_Main
begin

section \<open>JavaScript values and the event names of socket.js\<close>

text \<open>
  The client is JavaScript. Values that travel over the socket are JSON; a missing
  property reads as \<open>undefined\<close>. Numbers are modelled as exact reals: the rounding of
  IEEE-754 doubles is outside this model.
\<close>

datatype jsval =
    JUndefined
  | JNull
  | JBool bool
  | JNum real
  | JStr string
  | JObj "(string \<times> jsval) list"

text \<open>The truthiness test of \<open>if (v)\<close> and \<open>v && ...\<close>.\<close>

fun truthy :: "jsval \<Rightarrow> bool" where
  "truthy JUndefined = False"
| "truthy JNull = False"
| "truthy (JBool b) = b"
| "truthy (JNum x) = (x \<noteq> 0)"
| "truthy (JStr s) = (s \<noteq> [])"
| "truthy (JObj kvs) = True"







text \<open>
  What a handler does besides changing its state: \<open>socket.emit(name, payload)\<close>,
  \<open>waitForEvent(name)\<close> and a \<open>toastr\<close> notification (level, text).
\<close>

datatype effect =
    Emit string jsval
  | WaitFor string
  | Toastr string string

fun requests :: "effect list \<Rightarrow> (string \<times> jsval) list" where
  "requests [] = []"
| "requests (Emit n p # es) = (n, p) # requests es"
| "requests (e # es) = requests es"

section \<open>Event channel: waitForEvent (socket.js)\<close>

text \<open>
  \<open>waitForEvent(eventName)\<close> is
  \<open>new Promise((resolve) => { socket.once(eventName, resolve); })\<close>.
  The socket keeps its one-time listeners per event name in registration order; an
  incoming event calls every listener registered under its name with the event's payload
  and removes it. A promise settles at most once: \<open>resolve\<close> on a promise that is no
  longer pending does nothing. The promise's executor takes \<open>resolve\<close> only, so no
  code path rejects it.
\<close>

datatype promise_state = Pending | Fulfilled jsval | Rejected jsval

record socket_state =
  callbacks :: "(string \<times> nat) list"
  promises :: "promise_state list"
  outbox :: "(string \<times> jsval) list"

definition socket_init :: socket_state where
  "socket_init = \<lparr>callbacks = [], promises = [], outbox = []\<rparr>"

definition resolve :: "nat \<Rightarrow> jsval \<Rightarrow> promise_state list \<Rightarrow> promise_state list" where
  "resolve p v ps = (if p < length ps \<and> ps ! p = Pending then ps[p := Fulfilled v] else ps)"

definition waitForEvent :: "string \<Rightarrow> socket_state \<Rightarrow> nat \<times> socket_state" where
  "waitForEvent eventName s =
     (length (promises s),
      s\<lparr>callbacks := callbacks s @ [(eventName, length (promises s))],
        promises := promises s @ [Pending]\<rparr>)"

definition incoming :: "string \<times> jsval \<Rightarrow> socket_state \<Rightarrow> socket_state" where
  "incoming ev s =
     s\<lparr>callbacks := filter (\<lambda>cb. fst cb \<noteq> fst ev) (callbacks s),
       promises := fold (\<lambda>cb ps. if fst cb = fst ev then resolve (snd cb) (snd ev) ps else ps)
                     (callbacks s) (promises s)\<rparr>"

definition emit :: "string \<times> jsval \<Rightarrow> socket_state \<Rightarrow> socket_state" where
  "emit req s = s\<lparr>outbox := outbox s @ [req]\<rparr>"

text \<open>
  Everything that can happen on the channel: the client sends a request, the client
  registers another wait, the server's event arrives.
\<close>

datatype channel_op =
    Request string jsval
  | Wait string
  | Incoming string jsval

fun channel_step :: "channel_op \<Rightarrow> socket_state \<Rightarrow> socket_state" where
  "channel_step (Request n p) s = emit (n, p) s"
| "channel_step (Wait n) s = snd (waitForEvent n s)"
| "channel_step (Incoming n p) s = incoming (n, p) s"

definition channel_run :: "channel_op list \<Rightarrow> socket_state \<Rightarrow> socket_state" where
  "channel_run ops s = fold channel_step ops s"

fun occurs :: "string \<Rightarrow> channel_op list \<Rightarrow> bool" where
  "occurs k [] = False"
| "occurs k (Incoming n p # ops) = (n = k \<or> occurs k ops)"
| "occurs k (opn # ops) = occurs k ops"

text \<open>
  Bookkeeping for the proofs: every listener points at a promise of the table; a promise
  \<open>p\<close> is still waiting for \<open>k\<close>; a promise is fulfilled with \<open>v\<close>.
\<close>

definition registered :: "socket_state \<Rightarrow> bool" where
  "registered s = (\<forall>cb \<in> set (callbacks s). snd cb < length (promises s))"

definition waiting :: "string \<Rightarrow> nat \<Rightarrow> socket_state \<Rightarrow> bool" where
  "waiting k p s =
     (p < length (promises s) \<and> promises s ! p = Pending \<and> (k, p) \<in> set (callbacks s)
      \<and> (\<forall>cb \<in> set (callbacks s). snd cb = p \<longrightarrow> fst cb = k) \<and> registered s)"

definition settled :: "nat \<Rightarrow> jsval \<Rightarrow> socket_state \<Rightarrow> bool" where
  "settled p v s = (p < length (promises s) \<and> promises s ! p = Fulfilled v)"

section \<open>Graph model (shapes.js)\<close>

text \<open>
  The cells of the JointJS graph. An element is a node (\<open>NodeWithButton\<close>), a window
  or a note; \<open>eid\<close> is the cell's own id, by which JointJS tells two elements apart,
  \<open>customId\<close> the id the server gave a node (\<open>undefined\<close> until the first save).
  Sizes are (width, height), positions (x, y). Attributes that only style the shape are
  left out.
\<close>

datatype shape = NodeWithButton | Window | Note

record element =
  eid :: nat
  shape :: shape
  customId :: jsval
  position :: "real \<times> real"
  size_wh :: "real \<times> real"
  interfaceVisible :: bool
  originalSize :: "real \<times> real"
  expandedSize :: "real \<times> real"

record link =
  source :: nat
  target :: nat

record joint_graph =
  elements :: "element list"
  links :: "link list"

record paper_view =
  sx :: real
  tx :: real
  ty :: real

definition DEFAULT_NODE_WIDTH :: real where
  "DEFAULT_NODE_WIDTH = 150"

definition DEFAULT_NODE_HEIGHT :: real where
  "DEFAULT_NODE_HEIGHT = 70"

text \<open>
  \<open>getNode\<close>: a new node with the defaults of \<open>NodeWithButton\<close>, centred on the
  paper (\<open>paperWidth\<close>, \<open>paperHeight\<close> from the paper's bounding rectangle) and
  resized to the default size. \<open>i\<close> is the fresh cell id.
\<close>

definition getNode :: "nat \<Rightarrow> real \<Rightarrow> real \<Rightarrow> paper_view \<Rightarrow> element" where
  "getNode i paperWidth paperHeight v =
     (let centerX = (paperWidth / 2 - tx v) / sx v;
          centerY = (paperHeight / 2 - ty v) / sx v
      in \<lparr>eid = i, shape = NodeWithButton, customId = JUndefined,
          position = (centerX - DEFAULT_NODE_WIDTH / 2, centerY - DEFAULT_NODE_HEIGHT / 2),
          size_wh = (DEFAULT_NODE_WIDTH, DEFAULT_NODE_HEIGHT),
          interfaceVisible = False,
          originalSize = (DEFAULT_NODE_WIDTH, DEFAULT_NODE_HEIGHT),
          expandedSize = (300, 250)\<rparr>)"

definition connects :: "link \<Rightarrow> nat \<Rightarrow> nat \<Rightarrow> bool" where
  "connects l a b = ((source l = a \<and> target l = b) \<or> (source l = b \<and> target l = a))"

text \<open>\<open>getLink\<close>: \<open>null\<close> when a link between the two elements exists, else a new link.\<close>

definition getLink :: "joint_graph \<Rightarrow> element \<Rightarrow> element \<Rightarrow> link option" where
  "getLink g src tgt =
     (case find (\<lambda>l. connects l (eid src) (eid tgt)) (links g) of
        Some existingLink \<Rightarrow> None
      | None \<Rightarrow> Some \<lparr>source = eid src, target = eid tgt\<rparr>)"

definition addTo :: "link \<Rightarrow> joint_graph \<Rightarrow> joint_graph" where
  "addTo l g = g\<lparr>links := links g @ [l]\<rparr>"

text \<open>
  \<open>cell.remove()\<close> on an element: JointJS takes the element out of the graph together
  with the links attached to it.
\<close>

definition remove_cell :: "element \<Rightarrow> joint_graph \<Rightarrow> joint_graph" where
  "remove_cell e g =
     \<lparr>elements = filter (\<lambda>x. eid x \<noteq> eid e) (elements g),
      links = filter (\<lambda>l. source l \<noteq> eid e \<and> target l \<noteq> eid e) (links g)\<rparr>"

definition isNodeInsideWindow :: "element \<Rightarrow> element \<Rightarrow> bool" where
  "isNodeInsideWindow node window =
     (fst (position node) \<ge> fst (position window) \<and>
      snd (position node) \<ge> snd (position window) \<and>
      fst (position node) + fst (size_wh node) \<le> fst (position window) + fst (size_wh window) \<and>
      snd (position node) + snd (size_wh node) \<le> snd (position window) + snd (size_wh window))"


section \<open>Board handlers (preset.js)\<close>











text \<open>
  The callback of the \<open>link_create\<close> response, for the pair it holds, as far as it
  changes the graph (it also shows a notification).
\<close>

definition link_create_response ::
  "joint_graph \<Rightarrow> element \<Rightarrow> element \<Rightarrow> string \<Rightarrow> joint_graph" where
  "link_create_response g sourceNode targetNode message =
     (if message = ''success''
      then (case getLink g sourceNode targetNode of
              Some newLink \<Rightarrow> addTo newLink g
            | None \<Rightarrow> g)
      else g)"


text \<open>
  Drag and resize. The module's variables are one record; \<open>None\<close> is \<open>null\<close> (or
  not yet assigned). An entry of \<open>initialNodePositions\<close> holds a captured element (by
  its cell id) and its offset from the window's origin.
\<close>

record captured =
  node :: nat
  offsetX :: real
  offsetY :: real

record drag_state =
  isResizing :: bool
  isDragging :: bool
  resizeStartSize :: "(real \<times> real) option"
  resizeStartPosition :: "(real \<times> real) option"
  dragStartPosition :: "(real \<times> real) option"
  resizeStartElementPosition :: "(real \<times> real) option"
  nodesInsideWindow :: "nat list"
  initialNodePositions :: "captured list"

definition drag_idle :: drag_state where
  "drag_idle =
     \<lparr>isResizing = False, isDragging = False, resizeStartSize = None,
      resizeStartPosition = None, dragStartPosition = None,
      resizeStartElementPosition = None, nodesInsideWindow = [],
      initialNodePositions = []\<rparr>"

definition getCell :: "joint_graph \<Rightarrow> nat \<Rightarrow> element option" where
  "getCell g i = find (\<lambda>e. eid e = i) (elements g)"

definition set_position :: "nat \<Rightarrow> real \<times> real \<Rightarrow> joint_graph \<Rightarrow> joint_graph" where
  "set_position i p g =
     g\<lparr>elements := map (\<lambda>e. if eid e = i then e\<lparr>position := p\<rparr> else e) (elements g)\<rparr>"

definition set_size :: "nat \<Rightarrow> real \<times> real \<Rightarrow> joint_graph \<Rightarrow> joint_graph" where
  "set_size i wh g =
     g\<lparr>elements := map (\<lambda>e. if eid e = i then e\<lparr>size_wh := wh\<rparr> else e) (elements g)\<rparr>"

text \<open>
  \<open>element:pointerdown\<close> on the element with cell id \<open>i\<close>; \<open>client\<close> is
  (\<open>evt.clientX\<close>, \<open>evt.clientY\<close>), \<open>x\<close> and \<open>y\<close> the paper coordinates of the
  pointer.
\<close>

definition pointerdown ::
  "joint_graph \<Rightarrow> nat \<Rightarrow> real \<times> real \<Rightarrow> real \<Rightarrow> real \<Rightarrow> drag_state \<Rightarrow> drag_state" where
  "pointerdown g i client x y st =
     (case getCell g i of
        None \<Rightarrow> st
      | Some element \<Rightarrow>
          if shape element = Window \<or> shape element = Note
          then (let width = fst (size_wh element);
                    height = snd (size_wh element);
                    elementX = fst (position element);
                    elementY = snd (position element)
                in if x \<ge> elementX + width - 10 \<and> y \<ge> elementY + height - 10
                   then st\<lparr>isResizing := True,
                           resizeStartSize := Some (width, height),
                           resizeStartPosition := Some client,
                           resizeStartElementPosition := Some (elementX, elementY)\<rparr>
                   else (let st1 = st\<lparr>isDragging := True,
                                       dragStartPosition := Some (x - elementX, y - elementY)\<rparr>
                         in if shape element = Window
                            then (let inside =
                                        filter (\<lambda>n. eid n \<noteq> eid element
                                                     \<and> isNodeInsideWindow n element)
                                          (elements g)
                                  in st1\<lparr>nodesInsideWindow := map eid inside,
                                          initialNodePositions :=
                                            map (\<lambda>n. \<lparr>node = eid n,
                                                       offsetX = fst (position n) - elementX,
                                                       offsetY = snd (position n) - elementY\<rparr>)
                                              inside\<rparr>)
                            else st1))
          else st\<lparr>isDragging := True,
                  dragStartPosition :=
                    Some (x - fst (position element), y - snd (position element))\<rparr>)"

text \<open>
  \<open>element:pointermove\<close>. A read of a property of \<open>null\<close> throws and ends the
  handler before it has changed anything: the graph is returned as it was. The handler
  assigns to none of the module's variables.
\<close>

definition pointermove ::
  "nat \<Rightarrow> real \<times> real \<Rightarrow> real \<Rightarrow> real \<Rightarrow> joint_graph \<times> drag_state \<Rightarrow> joint_graph \<times> drag_state"
  where
  "pointermove i client x y gs =
     (let g = fst gs; st = snd gs
      in case getCell g i of
           None \<Rightarrow> (g, st)
         | Some element \<Rightarrow>
             if isResizing st \<and> (shape element = Window \<or> shape element = Note)
             then (case (resizeStartPosition st, resizeStartSize st,
                         resizeStartElementPosition st) of
                     (Some rp, Some rs, Some ep) \<Rightarrow>
                       (let dx = fst client - fst rp;
                            dy = snd client - snd rp;
                            newWidth = max 50 (fst rs + dx);
                            newHeight = max 50 (snd rs + dy)
                        in (set_position i ep (set_size i (newWidth, newHeight) g), st))
                   | _ \<Rightarrow> (g, st))
             else if isDragging st
             then (case dragStartPosition st of
                     None \<Rightarrow> (g, st)
                   | Some ds \<Rightarrow>
                       (let newX = x - fst ds;
                            newY = y - snd ds
                        in if shape element = Window
                           then (fold (\<lambda>c. set_position (node c)
                                               (newX + offsetX c, newY + offsetY c))
                                   (initialNodePositions st)
                                   (set_position i (newX, newY) g),
                                 st)
                           else (set_position i (newX, newY) g, st)))
             else (g, st))"

definition pointerup :: "drag_state \<Rightarrow> drag_state" where
  "pointerup st = drag_idle"

text \<open>A drag: the pointer moves, one \<open>element:pointermove\<close> after the other.\<close>

definition pointermoves ::
  "nat \<Rightarrow> ((real \<times> real) \<times> real \<times> real) list \<Rightarrow> joint_graph \<times> drag_state
   \<Rightarrow> joint_graph \<times> drag_state" where
  "pointermoves i ms gs = fold (\<lambda>m. pointermove i (fst m) (fst (snd m)) (snd (snd m))) ms gs"

definition position_of :: "joint_graph \<Rightarrow> nat \<Rightarrow> (real \<times> real) option" where
  "position_of g i = map_option position (getCell g i)"

section \<open>Node interface (preset.js)\<close>

text \<open>
  A select control is the list of its options, each (value, text). An item of
  \<open>response.options\<close> is a plain value or an object with \<open>value\<close> and \<open>text\<close>.
\<close>

type_synonym select_option = "string \<times> string"

datatype option_item = OptionValue string | OptionObject string string

record options_response =
  message :: string
  options_source :: string
  options :: "option_item list option"
  error :: "string option"

definition NODE_GET_DYNAMIC_OPTIONS_REQUEST :: string where
  "NODE_GET_DYNAMIC_OPTIONS_REQUEST = ''node_get_dynamic_options_request''"

definition NODE_GET_DYNAMIC_OPTIONS :: string where
  "NODE_GET_DYNAMIC_OPTIONS = ''node_get_dynamic_options''"

definition select_empty :: "select_option list \<Rightarrow> select_option list" where
  "select_empty sel = []"

definition select_append :: "select_option \<Rightarrow> select_option list \<Rightarrow> select_option list" where
  "select_append opt sel = sel @ [opt]"

definition loading_option :: select_option where
  "loading_option = ([], ''Loading...'')"

definition error_option :: select_option where
  "error_option = ([], ''Error loading'')"

fun new_Option :: "option_item \<Rightarrow> select_option" where
  "new_Option (OptionValue v) = (v, v)"
| "new_Option (OptionObject v t) = (v, t)"

text \<open>
  \<open>initializeNodeInterfaceSelects_Embedded\<close>, for one select of the form whose
  \<open>data-options-source\<close> is \<open>optionsSource\<close> (empty when the select has static
  options): what it does at once ...
\<close>

definition initialize_select ::
  "jsval \<Rightarrow> jsval \<Rightarrow> string \<Rightarrow> select_option list \<Rightarrow> select_option list \<times> effect list" where
  "initialize_select workflowId nodeId optionsSource sel =
     (if optionsSource = []
      then (sel, [])
      else if truthy workflowId \<and> truthy nodeId
      then (select_append loading_option (select_empty sel),
            [Emit NODE_GET_DYNAMIC_OPTIONS_REQUEST
               (JObj [(''workflow_id'', workflowId), (''node_id'', nodeId),
                      (''options_source'', JStr optionsSource)]),
             WaitFor NODE_GET_DYNAMIC_OPTIONS])
      else (select_append error_option (select_empty sel),
            [Toastr ''warning'' ''Workflow or Node ID missing, cannot load dynamic options.'']))"

text \<open>
  ... and what the promise's \<open>then\<close> and \<open>catch\<close> callbacks do to the option list
  when the response arrives (selecting the persisted value, the select2 widget and the
  notifications do not change the list). \<open>response.options.forEach\<close> throws when the
  response has no \<open>options\<close>; the select has been emptied by then, and the
  \<open>catch\<close> callback runs.
\<close>

datatype js_exception = TypeError

definition options_then ::
  "string \<Rightarrow> options_response \<Rightarrow> select_option list
   \<Rightarrow> js_exception \<times> select_option list + select_option list" where
  "options_then optionsSource response sel =
     (if message response = ''success'' \<and> options_source response = optionsSource
      then (case options response of
              None \<Rightarrow> Inl (TypeError, select_empty sel)
            | Some items \<Rightarrow>
                Inr (fold (\<lambda>item. select_append (new_Option item)) items (select_empty sel)))
      else Inr (select_append error_option (select_empty sel)))"

definition options_catch :: "select_option list \<Rightarrow> select_option list" where
  "options_catch sel = select_append error_option (select_empty sel)"

definition options_response_arrives ::
  "string \<Rightarrow> options_response \<Rightarrow> select_option list \<Rightarrow> select_option list" where
  "options_response_arrives optionsSource response sel =
     (case options_then optionsSource response sel of
        Inl thrown \<Rightarrow> options_catch (snd thrown)
      | Inr sel' \<Rightarrow> sel')"




section \<open>Agent editor: importVariables and editVariable\<close>



section \<open>Runs, examples and bookkeeping used by the properties\<close>

text \<open>
  Everything in the board that adds or removes cells: the callback of a
  \<open>link_create\<close> response (the loop that restores a workflow's links after a load
  is the same \<open>getLink\<close> and \<open>addTo\<close>, with every step a success), a node
  added after its first save, a cell removed, a link removed after a \<open>link_delete\<close>
  response, and \<open>graph.clear()\<close>.
\<close>

datatype graph_op =
    Link_created element element string
  | Cell_added element
  | Cell_removed element
  | Link_removed link
  | Graph_cleared

fun graph_step :: "graph_op \<Rightarrow> joint_graph \<Rightarrow> joint_graph" where
  "graph_step (Link_created s t m) g = link_create_response g s t m"
| "graph_step (Cell_added e) g = g\<lparr>elements := elements g @ [e]\<rparr>"
| "graph_step (Cell_removed e) g = remove_cell e g"
| "graph_step (Link_removed l) g = g\<lparr>links := remove1 l (links g)\<rparr>"
| "graph_step Graph_cleared g = \<lparr>elements = [], links = []\<rparr>"

definition graph_run :: "graph_op list \<Rightarrow> joint_graph \<Rightarrow> joint_graph" where
  "graph_run ops g = fold graph_step ops g"

definition has_link :: "joint_graph \<Rightarrow> nat \<Rightarrow> nat \<Rightarrow> bool" where
  "has_link g a b = (find (\<lambda>l. connects l a b) (links g) \<noteq> None)"

definition pair_count :: "joint_graph \<Rightarrow> nat \<Rightarrow> nat \<Rightarrow> nat" where
  "pair_count g a b = length (filter (\<lambda>l. connects l a b) (links g))"



text \<open>
  For the drag: the shape of a cell, the entry captured for an element, where a drag
  that has put the window at \<open>p\<close> leaves the cell \<open>j\<close>, and two graphs that differ
  only in the positions of the window and the captured elements.
\<close>

definition shape_of :: "joint_graph \<Rightarrow> nat \<Rightarrow> shape option" where
  "shape_of g i = map_option shape (getCell g i)"

definition capture :: "element \<Rightarrow> element \<Rightarrow> captured" where
  "capture window n =
     \<lparr>node = eid n,
      offsetX = fst (position n) - fst (position window),
      offsetY = snd (position n) - snd (position window)\<rparr>"

definition dragged ::
  "captured list \<Rightarrow> nat \<Rightarrow> real \<times> real \<Rightarrow> joint_graph \<Rightarrow> nat \<Rightarrow> (real \<times> real) option" where
  "dragged cs w p g j =
     (case find (\<lambda>c. node c = j) cs of
        Some c \<Rightarrow> map_option (\<lambda>_. (fst p + offsetX c, snd p + offsetY c)) (position_of g j)
      | None \<Rightarrow> if j = w then map_option (\<lambda>_. p) (position_of g j) else position_of g j)"

definition agree :: "captured list \<Rightarrow> nat \<Rightarrow> joint_graph \<Rightarrow> joint_graph \<Rightarrow> bool" where
  "agree cs w g g' =
     (\<forall>j. (position_of g' j = None) = (position_of g j = None)
          \<and> (find (\<lambda>c. node c = j) cs = None \<and> j \<noteq> w \<longrightarrow> position_of g' j = position_of g j))"

text \<open>
  Example cells. \<open>saved_node\<close> is a node as \<open>saveNode\<close> adds it to the graph: made
  by \<open>getNode\<close>, with the \<open>customId\<close> of the \<open>node_save\<close> response.
  \<open>getWindow\<close> follows shapes.js (200 by 150, centred); the three attributes of the
  interface panel mean nothing for a window.
\<close>

definition unit_view :: paper_view where
  "unit_view = \<lparr>sx = 1, tx = 0, ty = 0\<rparr>"

definition saved_node :: "nat \<Rightarrow> string \<Rightarrow> element" where
  "saved_node i cid = (getNode i 800 600 unit_view)\<lparr>customId := JStr cid\<rparr>"

definition getWindow :: "nat \<Rightarrow> real \<Rightarrow> real \<Rightarrow> paper_view \<Rightarrow> element" where
  "getWindow i paperWidth paperHeight v =
     (let centerX = (paperWidth / 2 - tx v) / sx v;
          centerY = (paperHeight / 2 - ty v) / sx v
      in \<lparr>eid = i, shape = Window, customId = JUndefined,
          position = (centerX - 100, centerY - 75),
          size_wh = (200, 150),
          interfaceVisible = False, originalSize = (0, 0), expandedSize = (0, 0)\<rparr>)"

definition demo_window :: element where
  "demo_window = (getWindow 10 800 600 unit_view)\<lparr>position := (100, 100), size_wh := (400, 300)\<rparr>"

definition demo_inside :: element where
  "demo_inside = (saved_node 1 ''n1'')\<lparr>position := (110, 105)\<rparr>"

definition demo_outside :: element where
  "demo_outside = (saved_node 2 ''n2'')\<lparr>position := (520, 150)\<rparr>"

definition demo_graph :: joint_graph where
  "demo_graph = \<lparr>elements = [demo_window, demo_inside, demo_outside], links = []\<rparr>"



section \<open>Properties\<close>

subsection \<open>Event channel\<close>

lemma length_resolve [simp]: "length (resolve p v ps) = length ps"
  by (simp add: resolve_def)

lemma length_fold_resolve [simp]:
  "length (fold (\<lambda>cb ps. if fst cb = n then resolve (snd cb) v ps else ps) cbs ps) = length ps"
  by (induction cbs arbitrary: ps) auto

lemma nth_resolve:
  "q < length ps \<Longrightarrow>
   resolve p v ps ! q = (if q = p \<and> ps ! q = Pending then Fulfilled v else ps ! q)"
  by (auto simp: resolve_def)

lemma nth_fold_resolve:
  "q < length ps \<Longrightarrow>
   fold (\<lambda>cb ps. if fst cb = n then resolve (snd cb) v ps else ps) cbs ps ! q =
     (if ps ! q = Pending \<and> (n, q) \<in> set cbs then Fulfilled v else ps ! q)"
proof (induction cbs arbitrary: ps)
  case Nil
  then show ?case by simp
next
  case (Cons cb cbs)
  then show ?case
    by (cases cb) (auto simp: nth_resolve)
qed

lemma registered_init: "registered socket_init"
  by (simp add: registered_def socket_init_def)

lemma registered_step: "registered s \<Longrightarrow> registered (channel_step opn s)"
  by (cases opn) (auto simp: registered_def emit_def waitForEvent_def incoming_def)

lemma registered_run: "registered s \<Longrightarrow> registered (channel_run ops s)"
  unfolding channel_run_def
  by (induction ops arbitrary: s) (auto simp: registered_step)

lemma waiting_fresh:
  "registered s \<Longrightarrow> waiting k (fst (waitForEvent k s)) (snd (waitForEvent k s))"
  by (auto simp: waiting_def registered_def waitForEvent_def nth_append)

lemma waiting_step:
  "waiting k p s \<Longrightarrow> \<not> occurs k [opn] \<Longrightarrow> waiting k p (channel_step opn s)"
  by (cases opn)
    (auto simp: waiting_def registered_def emit_def waitForEvent_def incoming_def nth_append
       nth_fold_resolve)

lemma waiting_run:
  "waiting k p s \<Longrightarrow> \<not> occurs k ops \<Longrightarrow> waiting k p (channel_run ops s)"
  unfolding channel_run_def
proof (induction ops arbitrary: s)
  case Nil
  then show ?case by simp
next
  case (Cons opn ops)
  have "\<not> occurs k [opn]" "\<not> occurs k ops"
    using Cons.prems(2) by (cases opn; simp)+
  then show ?case
    using Cons.IH Cons.prems(1) waiting_step by simp
qed

lemma waiting_incoming: "waiting k p s \<Longrightarrow> settled p v (incoming (k, v) s)"
  by (auto simp: waiting_def settled_def incoming_def nth_fold_resolve)

lemma settled_step: "settled p v s \<Longrightarrow> settled p v (channel_step opn s)"
  by (cases opn)
    (auto simp: settled_def emit_def waitForEvent_def incoming_def nth_append nth_fold_resolve)

lemma settled_run: "settled p v s \<Longrightarrow> settled p v (channel_run ops s)"
  unfolding channel_run_def
  by (induction ops arbitrary: s) (auto simp: settled_step)

lemma channel_run_append:
  "channel_run (xs @ ys) s = channel_run ys (channel_run xs s)"
  by (simp add: channel_run_def)

lemma channel_run_Cons:
  "channel_run (x # xs) s = channel_run xs (channel_step x s)"
  by (simp add: channel_run_def)

lemma waiting_or_settled:
  "waiting k p s \<Longrightarrow>
   waiting k p (channel_run ops s) \<or> (\<exists>v. settled p v (channel_run ops s))"
proof (induction ops arbitrary: s)
  case Nil
  then show ?case by (simp add: channel_run_def)
next
  case (Cons opn ops)
  show ?case
  proof (cases "occurs k [opn]")
    case False
    then have "waiting k p (channel_step opn s)"
      using Cons.prems waiting_step by blast
    then show ?thesis
      using Cons.IH by (simp add: channel_run_Cons)
  next
    case True
    then obtain v where "opn = Incoming k v"
      by (cases opn) auto
    then have "settled p v (channel_step opn s)"
      using Cons.prems waiting_incoming by simp
    then have "settled p v (channel_run ops (channel_step opn s))"
      by (rule settled_run)
    then show ?thesis
      by (auto simp: channel_run_Cons)
  qed
qed

text \<open>
  C1. A call \<open>waitForEvent k\<close>, made in any reachable state of the channel, returns a
  promise that stays pending, with its listener still registered, for as long as no event
  named \<open>k\<close> arrives, whatever else is sent, awaited or received meanwhile; the first
  event named \<open>k\<close> fulfils it with that event's payload, whichever request caused the
  event (an event carries a name and a payload only); later events, of the same name too,
  leave that value in place; and no sequence of operations rejects the promise.
\<close>

theorem C1_waitForEvent_first_arrival:
  assumes "\<not> occurs k pre"
  shows "(let (p, s1) = waitForEvent k (channel_run h socket_init) in
      promises (channel_run pre s1) ! p = Pending
    \<and> (k, p) \<in> set (callbacks (channel_run pre s1))
    \<and> promises (channel_run (pre @ Incoming k v # post) s1) ! p = Fulfilled v
    \<and> promises (channel_run ops s1) ! p \<noteq> Rejected x)"
proof -
  obtain p s1 where ps: "waitForEvent k (channel_run h socket_init) = (p, s1)"
    by (cases "waitForEvent k (channel_run h socket_init)")
  have "registered (channel_run h socket_init)"
    by (simp add: registered_init registered_run)
  from waiting_fresh [OF this, of k] have w1: "waiting k p s1"
    by (simp add: ps)
  have w2: "waiting k p (channel_run pre s1)"
    using w1 assms by (rule waiting_run)
  have "settled p v (channel_run (pre @ Incoming k v # post) s1)"
    using waiting_incoming [OF w2, of v]
    by (simp add: channel_run_append channel_run_Cons settled_run)
  moreover have "promises (channel_run ops s1) ! p \<noteq> Rejected x"
    using waiting_or_settled [OF w1, of ops] by (auto simp: waiting_def settled_def)
  ultimately show ?thesis
    using w2 by (simp add: ps waiting_def settled_def)
qed

theorem C1_waitForEvent_first_arrival_witness:
  "\<not> occurs ''node'' [Request ''node_request'' JNull, Incoming ''workflow'' (JStr ''w'')]
   \<and> promises
        (channel_run
           ([Request ''node_request'' JNull, Incoming ''workflow'' (JStr ''w'')]
            @ Incoming ''node'' (JStr ''first'') # [Incoming ''node'' (JStr ''second'')])
           (snd (waitForEvent ''node'' (channel_run [Wait ''workflow''] socket_init))))
      ! 1 = Fulfilled (JStr ''first'')"
proof -
  have h: "\<not> occurs ''node'' [Request ''node_request'' JNull, Incoming ''workflow'' (JStr ''w'')]"
    by simp
  have p: "fst (waitForEvent ''node'' (channel_run [Wait ''workflow''] socket_init)) = 1"
    by (simp add: waitForEvent_def channel_run_def socket_init_def)
  show ?thesis
    using h p C1_waitForEvent_first_arrival [OF h, of "[Wait ''workflow'']" "JStr ''first''"
        "[Incoming ''node'' (JStr ''second'')]" "[]" JNull]
    by (simp add: split_def Let_def)
qed

subsection \<open>Saving a node's interface\<close>





subsection \<open>Links\<close>

lemma connects_sym: "connects l a b = connects l b a"
  by (auto simp: connects_def)

lemma find_None_filter: "(find P xs = None) = (filter P xs = [])"
  by (induction xs) auto

lemma getLink_None: "has_link g (eid a) (eid b) \<Longrightarrow> getLink g a b = None"
  by (auto simp: has_link_def getLink_def split: option.splits)

lemma has_link_sym: "has_link g a b = has_link g b a"
  unfolding has_link_def using connects_sym [of _ a b] by presburger

lemma pair_count_link_create_response:
  assumes "\<And>x y. pair_count g x y \<le> 1"
  shows "pair_count (link_create_response g s t m) x y \<le> 1"
proof (cases "m = ''success'' \<and> getLink g s t \<noteq> None")
  case False
  then show ?thesis
    using assms by (auto simp: link_create_response_def)
next
  case True
  then have none: "filter (\<lambda>l. connects l (eid s) (eid t)) (links g) = []"
    by (auto simp: getLink_def find_None_filter split: option.splits)
  have new: "link_create_response g s t m = addTo \<lparr>source = eid s, target = eid t\<rparr> g"
    using True by (auto simp: link_create_response_def getLink_def split: option.splits)
  show ?thesis
  proof (cases "connects \<lparr>source = eid s, target = eid t\<rparr> x y")
    case False
    then show ?thesis
      using assms [of x y] by (simp add: new addTo_def pair_count_def)
  next
    case True
    then have "(\<lambda>l. connects l x y) = (\<lambda>l. connects l (eid s) (eid t))"
      by (auto simp: connects_def fun_eq_iff)
    then show ?thesis
      using none by (simp add: new addTo_def pair_count_def)
  qed
qed

lemma length_filter_filter: "length (filter P (filter Q xs)) \<le> length (filter P xs)"
  by (induction xs) auto

lemma length_filter_remove1: "length (filter P (remove1 l xs)) \<le> length (filter P xs)"
  by (induction xs) auto

lemma pair_count_graph_step:
  assumes "\<And>x y. pair_count g x y \<le> 1"
  shows "pair_count (graph_step opn g) x y \<le> 1"
proof (cases opn)
  case (Link_created s t m)
  then show ?thesis
    using pair_count_link_create_response [of g] assms by simp
next
  case (Cell_added e)
  then show ?thesis
    using assms [of x y] by (simp add: pair_count_def)
next
  case (Cell_removed e)
  have "length (filter (\<lambda>l. connects l x y)
           (filter (\<lambda>l. source l \<noteq> eid e \<and> target l \<noteq> eid e) (links g)))
        \<le> length (filter (\<lambda>l. connects l x y) (links g))"
    by (rule length_filter_filter)
  then show ?thesis
    using Cell_removed assms [of x y] by (simp add: pair_count_def remove_cell_def)
next
  case (Link_removed l)
  then show ?thesis
    using assms [of x y] length_filter_remove1 [of "\<lambda>l. connects l x y" l "links g"]
    by (simp add: pair_count_def)
next
  case Graph_cleared
  then show ?thesis
    by (simp add: pair_count_def)
qed

lemma pair_count_graph_run:
  "(\<And>x y. pair_count g x y \<le> 1) \<Longrightarrow> pair_count (graph_run ops g) x y \<le> 1"
  unfolding graph_run_def
proof (induction ops arbitrary: g x y)
  case Nil
  then show ?case by simp
next
  case (Cons opn ops)
  show ?case
    using Cons.IH [of "graph_step opn g" x y] pair_count_graph_step [of g opn] Cons.prems
    by simp
qed

text \<open>
  C3. When a link between two nodes exists, in either orientation, \<open>getLink\<close> returns
  \<open>null\<close> for the pair in both orders, and the callback that would add the link leaves
  the graph as it is. Hence, from a graph without links, no run of link creations, cell
  additions, removals and clearings ever holds two links between the same unordered pair
  of cells.
\<close>

theorem C3_one_link_per_pair:
  "(has_link g (eid a) (eid b) \<longrightarrow>
      getLink g a b = None \<and> getLink g b a = None
      \<and> link_create_response g a b m = g \<and> link_create_response g b a m = g)
   \<and> (links g0 = [] \<longrightarrow> pair_count (graph_run ops g0) x y \<le> 1)"
proof -
  have "getLink g a b = None \<and> getLink g b a = None" if "has_link g (eid a) (eid b)"
    using that getLink_None [of g a b] getLink_None [of g b a] has_link_sym [of g "eid a" "eid b"]
    by simp
  moreover have "pair_count (graph_run ops g0) x y \<le> 1" if "links g0 = []"
    using that by (intro pair_count_graph_run) (simp add: pair_count_def)
  ultimately show ?thesis
    by (auto simp: link_create_response_def)
qed

text \<open>
  A link from node 1 to node 2 exists; creating it again from 2 to 1 changes nothing. And
  after the responses for (1, 2), (2, 1) and (1, 2) again, one link joins the two.
\<close>

theorem C3_one_link_per_pair_witness:
  "has_link \<lparr>elements = [], links = [\<lparr>source = 1, target = 2\<rparr>]\<rparr>
      (eid (saved_node 2 ''n2'')) (eid (saved_node 1 ''n1''))
   \<and> getLink \<lparr>elements = [], links = [\<lparr>source = 1, target = 2\<rparr>]\<rparr>
        (saved_node 2 ''n2'') (saved_node 1 ''n1'') = None
   \<and> link_create_response \<lparr>elements = [], links = [\<lparr>source = 1, target = 2\<rparr>]\<rparr>
        (saved_node 2 ''n2'') (saved_node 1 ''n1'') ''success''
       = \<lparr>elements = [], links = [\<lparr>source = 1, target = 2\<rparr>]\<rparr>
   \<and> links \<lparr>elements = [], links = []\<rparr> = []
   \<and> pair_count
        (graph_run
           [Link_created (saved_node 1 ''n1'') (saved_node 2 ''n2'') ''success'',
            Link_created (saved_node 2 ''n2'') (saved_node 1 ''n1'') ''success'',
            Link_created (saved_node 1 ''n1'') (saved_node 2 ''n2'') ''success'']
           \<lparr>elements = [], links = []\<rparr>) 2 1 \<le> 1"
proof -
  have h: "has_link \<lparr>elements = [], links = [\<lparr>source = 1, target = 2\<rparr>]\<rparr>
      (eid (saved_node 2 ''n2'')) (eid (saved_node 1 ''n1''))"
    by (simp add: has_link_def connects_def saved_node_def getNode_def)
  have e: "links \<lparr>elements = [], links = []\<rparr> = []"
    by simp
  show ?thesis
    using h e
      C3_one_link_per_pair [of "\<lparr>elements = [], links = [\<lparr>source = 1, target = 2\<rparr>]\<rparr>"
            "saved_node 2 ''n2''" "saved_node 1 ''n1''" "''success''"
            "\<lparr>elements = [], links = []\<rparr>"
            "[Link_created (saved_node 1 ''n1'') (saved_node 2 ''n2'') ''success'',
              Link_created (saved_node 2 ''n2'') (saved_node 1 ''n1'') ''success'',
              Link_created (saved_node 1 ''n1'') (saved_node 2 ''n2'') ''success'']" 2 1]
    by simp
qed

subsection \<open>Zoom\<close>



subsection \<open>Dragging a window\<close>

lemma find_map_position:
  "find (\<lambda>e. eid e = j) (map (\<lambda>e. if eid e = i then e\<lparr>position := p\<rparr> else e) xs) =
   map_option (\<lambda>e. if eid e = i then e\<lparr>position := p\<rparr> else e) (find (\<lambda>e. eid e = j) xs)"
  by (induction xs) auto

lemma getCell_eid: "getCell g j = Some e \<Longrightarrow> eid e = j \<and> e \<in> set (elements g)"
  by (auto simp: getCell_def find_Some_iff)

lemma position_of_set_position:
  "position_of (set_position i p g) j =
     (if j = i then map_option (\<lambda>_. p) (position_of g j) else position_of g j)"
proof (cases "getCell g j")
  case None
  then show ?thesis
    by (auto simp: position_of_def set_position_def getCell_def find_map_position)
next
  case (Some e)
  then have "eid e = j"
    by (simp add: getCell_eid)
  then show ?thesis
    using Some by (auto simp: position_of_def set_position_def getCell_def find_map_position)
qed

lemma shape_of_set_position: "shape_of (set_position i p g) j = shape_of g j"
  by (cases "find (\<lambda>e. eid e = j) (elements g)")
    (simp_all add: shape_of_def set_position_def getCell_def find_map_position)

lemma shape_of_fold:
  "shape_of (fold (\<lambda>c. set_position (node c) (f c)) cs g) j = shape_of g j"
  by (induction cs arbitrary: g) (simp_all add: shape_of_set_position)

lemma position_of_fold:
  "distinct (map node cs) \<Longrightarrow>
   position_of (fold (\<lambda>c. set_position (node c) (f c)) cs g) j =
     (case find (\<lambda>c. node c = j) cs of
        Some c \<Rightarrow> map_option (\<lambda>_. f c) (position_of g j)
      | None \<Rightarrow> position_of g j)"
proof (induction cs arbitrary: g)
  case Nil
  then show ?case by simp
next
  case (Cons c cs)
  show ?case
  proof (cases "node c = j")
    case True
    have "node c \<notin> node ` set cs"
      using Cons.prems by simp
    then have "\<forall>x \<in> set cs. node x \<noteq> j"
      using True by blast
    then have "find (\<lambda>c. node c = j) cs = None"
      by (simp add: find_None_iff)
    then show ?thesis
      using Cons True by (simp add: position_of_set_position)
  next
    case False
    then show ?thesis
      using Cons by (simp add: position_of_set_position cong: option.case_cong)
  qed
qed

lemma pointermove_window:
  assumes "\<not> isResizing st" and "isDragging st" and "dragStartPosition st = Some ds"
    and "shape_of g w = Some Window"
  shows "pointermove w client x y (g, st) =
     (fold (\<lambda>c. set_position (node c) (x - fst ds + offsetX c, y - snd ds + offsetY c))
        (initialNodePositions st) (set_position w (x - fst ds, y - snd ds) g), st)"
  using assms
  by (auto simp: pointermove_def shape_of_def Let_def split: option.splits)

lemma pointermove_window_positions:
  assumes "\<not> isResizing st" and "isDragging st" and "dragStartPosition st = Some ds"
    and "shape_of g w = Some Window" and "distinct (map node (initialNodePositions st))"
  shows "position_of (fst (pointermove w client x y (g, st))) j =
           dragged (initialNodePositions st) w (x - fst ds, y - snd ds) g j"
    and "shape_of (fst (pointermove w client x y (g, st))) j = shape_of g j"
    and "snd (pointermove w client x y (g, st)) = st"
  using assms
  by (simp_all add: pointermove_window position_of_fold position_of_set_position shape_of_fold
      shape_of_set_position dragged_def option.map_comp comp_def split: option.splits)

lemma map_option_const_cong:
  "(a = None) = (b = None) \<Longrightarrow> map_option (\<lambda>_. v) a = map_option (\<lambda>_. v) b"
  by (cases a; cases b) auto

lemma agree_refl: "agree cs w g g"
  by (simp add: agree_def)

lemma agree_dragged: "agree cs w g g' \<Longrightarrow> dragged cs w p g' j = dragged cs w p g j"
  unfolding agree_def dragged_def
  by (auto split: option.splits intro: map_option_const_cong)

lemma agree_step:
  assumes "agree cs w g g'" and "\<And>j. position_of g'' j = dragged cs w q g' j"
  shows "agree cs w g g''"
  unfolding agree_def
proof (intro allI conjI impI)
  fix j
  have "position_of g'' j = dragged cs w q g j"
    using assms agree_dragged by simp
  then show "(position_of g'' j = None) = (position_of g j = None)"
    by (auto simp: dragged_def split: option.splits)
next
  fix j
  assume "find (\<lambda>c. node c = j) cs = None \<and> j \<noteq> w"
  moreover have "position_of g'' j = dragged cs w q g j"
    using assms agree_dragged by simp
  ultimately show "position_of g'' j = position_of g j"
    by (simp add: dragged_def)
qed

lemma pointermoves_window:
  assumes "\<not> isResizing st" and "isDragging st" and "dragStartPosition st = Some ds"
    and "distinct (map node (initialNodePositions st))"
    and "shape_of g' w = Some Window"
    and "agree (initialNodePositions st) w g g'"
    and "ms \<noteq> []" and "last ms = (client, x, y)"
  shows "position_of (fst (pointermoves w ms (g', st))) j =
           dragged (initialNodePositions st) w (x - fst ds, y - snd ds) g j
         \<and> snd (pointermoves w ms (g', st)) = st"
  using assms(5-)
proof (induction ms arbitrary: g')
  case Nil
  then show ?case by simp
next
  case (Cons m ms)
  let ?r = "pointermove w (fst m) (fst (snd m)) (snd (snd m)) (g', st)"
  note mv = pointermove_window_positions [OF assms(1-3) Cons.prems(1) assms(4),
      of "fst m" "fst (snd m)" "snd (snd m)"]
  have r: "?r = (fst ?r, st)"
    using mv(3) by (metis prod.collapse)
  show ?case
  proof (cases "ms = []")
    case True
    then have "m = (client, x, y)"
      using Cons.prems(4) by simp
    then show ?thesis
      using True mv(1) [of j] mv(3) agree_dragged [OF Cons.prems(2)]
      by (simp add: pointermoves_def)
  next
    case False
    have "position_of (fst (pointermoves w ms (fst ?r, st))) j =
           dragged (initialNodePositions st) w (x - fst ds, y - snd ds) g j
         \<and> snd (pointermoves w ms (fst ?r, st)) = st"
    proof (rule Cons.IH)
      show "shape_of (fst ?r) w = Some Window"
        using mv(2) Cons.prems(1) by simp
      show "agree (initialNodePositions st) w g (fst ?r)"
        using agree_step [OF Cons.prems(2)] mv(1) by blast
      show "ms \<noteq> []" by (rule False)
      show "last ms = (client, x, y)"
        using Cons.prems(4) False by simp
    qed
    then show ?thesis
      using r by (simp add: pointermoves_def)
  qed
qed


lemma find_eid_distinct:
  "distinct (map eid xs) \<Longrightarrow> n \<in> set xs \<Longrightarrow> find (\<lambda>e. eid e = eid n) xs = Some n"
  by (induction xs) force+

lemma node_capture [simp]: "node (capture window n) = eid n"
  by (simp add: capture_def)

lemma find_capture:
  "distinct (map eid xs) \<Longrightarrow> n \<in> set xs \<Longrightarrow>
   find (\<lambda>c. node c = eid n) (map (capture window) (filter P xs)) =
     (if P n then Some (capture window n) else None)"
proof (induction xs)
  case Nil
  then show ?case by simp
next
  case (Cons a xs)
  show ?case
  proof (cases "a = n")
    case True
    have "eid n \<notin> eid ` set xs"
      using Cons.prems(1) True by simp
    then have "\<forall>c \<in> set (map (capture window) (filter P xs)). node c \<noteq> eid n"
      by (auto simp: capture_def image_iff)
    then have "find (\<lambda>c. node c = eid n) (map (capture window) (filter P xs)) = None"
      by (simp only: find_None_iff) blast
    then show ?thesis
      using True by simp
  next
    case False
    then have "n \<in> set xs" "eid a \<noteq> eid n"
      using Cons.prems by auto
    then show ?thesis
      using Cons by simp
  qed
qed

lemma pointerdown_window:
  assumes "getCell g w = Some window" and "shape window = Window"
    and "\<not> (x0 \<ge> fst (position window) + fst (size_wh window) - 10
           \<and> y0 \<ge> snd (position window) + snd (size_wh window) - 10)"
  shows "pointerdown g w client0 x0 y0 st0 =
     st0\<lparr>isDragging := True,
         dragStartPosition := Some (x0 - fst (position window), y0 - snd (position window)),
         nodesInsideWindow :=
           map eid (filter (\<lambda>n. eid n \<noteq> w \<and> isNodeInsideWindow n window) (elements g)),
         initialNodePositions :=
           map (capture window)
             (filter (\<lambda>n. eid n \<noteq> w \<and> isNodeInsideWindow n window) (elements g))\<rparr>"
proof -
  have "eid window = w"
    using assms(1) by (simp add: getCell_eid)
  then show ?thesis
    using assms by (auto simp: pointerdown_def Let_def capture_def [abs_def])
qed

text \<open>
  C5. A pointer-down on a window outside its resize corner, with no resize under way,
  captures exactly the elements of the graph other than the window that lie inside the
  window at that moment, each with its offset from the window's origin. After any
  number of pointer-moves that follow, the captured list is what it was; the window
  stands at the pointer's position minus the grab point; every captured element stands
  at the window's position plus its captured offset, so it has moved by the window's
  delta; and every other element is where it was before the drag, whether or not the
  window has come to cover it.
\<close>

theorem C5_window_drag:
  assumes "distinct (map eid (elements g))"
    and "getCell g w = Some window" and "shape window = Window"
    and "\<not> (x0 \<ge> fst (position window) + fst (size_wh window) - 10
           \<and> y0 \<ge> snd (position window) + snd (size_wh window) - 10)"
    and "\<not> isResizing st0"
    and "ms \<noteq> []" and "last ms = (client, x, y)"
  shows
    "initialNodePositions (pointerdown g w client0 x0 y0 st0) =
       map (\<lambda>n. \<lparr>node = eid n,
                 offsetX = fst (position n) - fst (position window),
                 offsetY = snd (position n) - snd (position window)\<rparr>)
         (filter (\<lambda>n. eid n \<noteq> w \<and> isNodeInsideWindow n window) (elements g))
     \<and> snd (pointermoves w ms (g, pointerdown g w client0 x0 y0 st0))
         = pointerdown g w client0 x0 y0 st0
     \<and> position_of (fst (pointermoves w ms (g, pointerdown g w client0 x0 y0 st0))) w
         = Some (x - (x0 - fst (position window)), y - (y0 - snd (position window)))
     \<and> (\<forall>n \<in> set (elements g). eid n \<noteq> w \<longrightarrow>
          position_of (fst (pointermoves w ms (g, pointerdown g w client0 x0 y0 st0))) (eid n)
            = Some (if isNodeInsideWindow n window
                    then (x - (x0 - fst (position window))
                            + (fst (position n) - fst (position window)),
                          y - (y0 - snd (position window))
                            + (snd (position n) - snd (position window)))
                    else position n))"
proof -
  let ?P = "\<lambda>n. eid n \<noteq> w \<and> isNodeInsideWindow n window"
  let ?cs = "map (capture window) (filter ?P (elements g))"
  let ?st = "pointerdown g w client0 x0 y0 st0"
  let ?ds = "(x0 - fst (position window), y0 - snd (position window))"
  let ?p = "(x - fst ?ds, y - snd ?ds)"
  note pd = pointerdown_window [OF assms(2-4), of client0 st0]
  have st: "\<not> isResizing ?st" "isDragging ?st" "dragStartPosition ?st = Some ?ds"
    "initialNodePositions ?st = ?cs"
    using assms(5) by (simp_all add: pd)
  have eq: "map node ?cs = map eid (filter ?P (elements g))"
    by (simp add: capture_def comp_def)
  have "distinct (map eid (filter ?P (elements g)))"
    using assms(1) by (rule distinct_map_filter)
  then have dist: "distinct (map node (initialNodePositions ?st))"
    unfolding st(4) eq .
  have win: "eid window = w" "window \<in> set (elements g)"
    using assms(2) by (simp_all add: getCell_eid)
  have shp: "shape_of g w = Some Window"
    using assms(2,3) by (simp add: shape_of_def)
  have moves: "position_of (fst (pointermoves w ms (g, ?st))) j = dragged ?cs w ?p g j
       \<and> snd (pointermoves w ms (g, ?st)) = ?st" for j
    using pointermoves_window [OF st(1-3) dist _ _ assms(6,7), where g = g and g' = g and j = j] shp
    by (simp add: st(4) agree_refl)
  have "\<forall>c \<in> set ?cs. node c \<noteq> w"
    by (auto simp: capture_def)
  then have "find (\<lambda>c. node c = w) ?cs = None"
    by (simp only: find_None_iff) blast
  then have atw: "dragged ?cs w ?p g w = Some ?p"
    using assms(2) by (simp add: dragged_def position_of_def)
  have atn: "dragged ?cs w ?p g (eid n) =
      Some (if isNodeInsideWindow n window
            then (fst ?p + (fst (position n) - fst (position window)),
                  snd ?p + (snd (position n) - snd (position window)))
            else position n)"
    if "n \<in> set (elements g)" "eid n \<noteq> w" for n
  proof -
    have "position_of g (eid n) = Some (position n)"
      using find_eid_distinct [OF assms(1) that(1)] by (simp add: position_of_def getCell_def)
    then show ?thesis
      using find_capture [OF assms(1) that(1), of window ?P] that(2)
      by (simp add: dragged_def capture_def)
  qed
  show ?thesis
    using moves atw atn by (simp add: st(4) capture_def [abs_def])
qed

text \<open>
  The window at (100, 100), 400 by 300, is grabbed at (150, 120) and moved twice. The
  node inside at offset (10, 5) follows to (210, 205). The node at (520, 150) is outside
  at the start, inside the window after the first move, and is left where it is.
\<close>

theorem C5_window_drag_witness:
  "distinct (map eid (elements demo_graph))
   \<and> getCell demo_graph 10 = Some demo_window \<and> shape demo_window = Window
   \<and> \<not> (150 \<ge> fst (position demo_window) + fst (size_wh demo_window) - 10
         \<and> 120 \<ge> snd (position demo_window) + snd (size_wh demo_window) - 10)
   \<and> \<not> isResizing drag_idle
   \<and> isNodeInsideWindow demo_inside demo_window
   \<and> \<not> isNodeInsideWindow demo_outside demo_window
   \<and> isNodeInsideWindow demo_outside (demo_window\<lparr>position := (300, 110)\<rparr>)
   \<and> position_of
        (fst (pointermoves 10 [((0, 0), 350, 130), ((0, 0), 250, 220)]
                (demo_graph, pointerdown demo_graph 10 (0, 0) 150 120 drag_idle))) 10
       = Some (200, 200)
   \<and> position_of
        (fst (pointermoves 10 [((0, 0), 350, 130), ((0, 0), 250, 220)]
                (demo_graph, pointerdown demo_graph 10 (0, 0) 150 120 drag_idle))) 1
       = Some (210, 205)
   \<and> position_of
        (fst (pointermoves 10 [((0, 0), 350, 130), ((0, 0), 250, 220)]
                (demo_graph, pointerdown demo_graph 10 (0, 0) 150 120 drag_idle))) 2
       = Some (520, 150)"
proof -
  have ex: "demo_window = \<lparr>eid = 10, shape = Window, customId = JUndefined,
        position = (100, 100), size_wh = (400, 300), interfaceVisible = False,
        originalSize = (0, 0), expandedSize = (0, 0)\<rparr>"
    "demo_inside = \<lparr>eid = 1, shape = NodeWithButton, customId = JStr ''n1'',
        position = (110, 105), size_wh = (150, 70), interfaceVisible = False,
        originalSize = (150, 70), expandedSize = (300, 250)\<rparr>"
    "demo_outside = \<lparr>eid = 2, shape = NodeWithButton, customId = JStr ''n2'',
        position = (520, 150), size_wh = (150, 70), interfaceVisible = False,
        originalSize = (150, 70), expandedSize = (300, 250)\<rparr>"
    by (simp_all add: demo_window_def demo_inside_def demo_outside_def getWindow_def
        saved_node_def getNode_def unit_view_def DEFAULT_NODE_WIDTH_def DEFAULT_NODE_HEIGHT_def)
  have h1: "distinct (map eid (elements demo_graph))"
    by (simp add: demo_graph_def ex)
  have h2: "getCell demo_graph 10 = Some demo_window"
    by (simp add: getCell_def demo_graph_def) (simp add: ex)
  have h3: "shape demo_window = Window"
    by (simp add: ex)
  have h4: "\<not> (150 \<ge> fst (position demo_window) + fst (size_wh demo_window) - 10
         \<and> 120 \<ge> snd (position demo_window) + snd (size_wh demo_window) - 10)"
    by (simp add: ex)
  have h5: "\<not> isResizing drag_idle"
    by (simp add: drag_idle_def)
  have h6: "[((0, 0), 350, 130), ((0, 0), 250, 220)] \<noteq> ([] :: ((real \<times> real) \<times> real \<times> real) list)"
    by simp
  have h7: "last [((0, 0), 350, 130), ((0, 0), 250, 220)] = ((0, 0), 250, 220 :: real)"
    by simp
  have ins: "isNodeInsideWindow demo_inside demo_window"
    "\<not> isNodeInsideWindow demo_outside demo_window"
    "isNodeInsideWindow demo_outside (demo_window\<lparr>position := (300, 110)\<rparr>)"
    by (simp_all add: isNodeInsideWindow_def ex)
  have mem: "demo_inside \<in> set (elements demo_graph)" "demo_outside \<in> set (elements demo_graph)"
    by (simp_all add: demo_graph_def)
  note main = C5_window_drag [OF h1 h2 h3 h4 h5 h6 h7, of "(0, 0)"]
  have w: "position_of
        (fst (pointermoves 10 [((0, 0), 350, 130), ((0, 0), 250, 220)]
                (demo_graph, pointerdown demo_graph 10 (0, 0) 150 120 drag_idle))) 10
       = Some (200, 200)"
    using main [THEN conjunct2, THEN conjunct2, THEN conjunct1] by (simp add: ex)
  note others = main [THEN conjunct2, THEN conjunct2, THEN conjunct2]
  have n1: "position_of
        (fst (pointermoves 10 [((0, 0), 350, 130), ((0, 0), 250, 220)]
                (demo_graph, pointerdown demo_graph 10 (0, 0) 150 120 drag_idle))) (eid demo_inside)
       = Some (210, 205)"
    using others [THEN bspec, OF mem(1)] ins(1) by (simp add: ex)
  have n2: "position_of
        (fst (pointermoves 10 [((0, 0), 350, 130), ((0, 0), 250, 220)]
                (demo_graph, pointerdown demo_graph 10 (0, 0) 150 120 drag_idle))) (eid demo_outside)
       = Some (520, 150)"
    using others [THEN bspec, OF mem(2)] ins(2) by (simp add: ex)
  show ?thesis
    using h1 h2 h3 h4 h5 ins w n1 n2 by (simp add: ex)
qed

subsection \<open>The interface panel's size\<close>




subsection \<open>Deleting a node\<close>




subsection \<open>Dynamic options\<close>

text \<open>
  C8. When the response to a request for dynamic options is not a success, or names
  another options source, or makes the callback throw (a success without options), the
  select ends with exactly one option: the placeholder with the empty value and the text
  "Error loading". The same holds when the \<open>catch\<close> callback runs. Whatever options
  the select held before are gone.
\<close>

theorem C8_options_failure:
  "(message r \<noteq> ''success'' \<or> options_source r \<noteq> src \<or> options r = None \<longrightarrow>
      options_response_arrives src r prior = [error_option])
   \<and> options_catch prior = [error_option]
   \<and> error_option = ([], ''Error loading'')"
  by (auto simp: options_response_arrives_def options_then_def options_catch_def
      select_append_def select_empty_def error_option_def)

theorem C8_options_failure_witness:
  "message \<lparr>message = ''error'', options_source = ''models'', options = None,
             error = Some ''boom''\<rparr> \<noteq> ''success''
   \<and> options_response_arrives ''models''
        \<lparr>message = ''error'', options_source = ''models'', options = None,
         error = Some ''boom''\<rparr>
        [(''a'', ''A''), (''b'', ''B'')] = [([], ''Error loading'')]"
  using C8_options_failure [of "\<lparr>message = ''error'', options_source = ''models'', options = None,
             error = Some ''boom''\<rparr>" "''models''" "[(''a'', ''A''), (''b'', ''B'')]"]
  by (simp add: error_option_def)

subsection \<open>Agent editor\<close>


subsection \<open>Creating a link in two clicks\<close>



lemma requests_append [simp]: "requests (xs @ ys) = requests xs @ requests ys"
  by (induction xs rule: requests.induct) auto




end
